theory Spec2Isabelle
  imports Main
begin

section \<open>Values decoded from JSON\<close>

text \<open>
  Everything \<^verbatim>\<open>kofi_staker_checker.py\<close> works on is a value that \<^verbatim>\<open>response.json()\<close>
  or \<^verbatim>\<open>json.load\<close> decoded: \<^verbatim>\<open>None\<close>, a bool, an int, a float, a str, a list or a dict
  with string keys. The script never checks the shape of what it receives, so the model keeps
  all seven shapes and lets every operation fail where Python's would.

  A Python float is a finite binary fraction, an infinity or a NaN. \<open>Finite m e\<close> stands for
  \<open>m * 2 ^ e\<close>; the script only ever tests a float for truth and converts it with
  \<^verbatim>\<open>int()\<close>, and both are exact on this representation. A str is a list of characters (code
  points below 256). A dict is an association list in which the first binding of a key is the
  one the dict holds.
\<close>

datatype pyfloat = Finite int int | PosInf | NegInf | NaN

datatype json =
    JNull
  | JBool bool
  | JInt int
  | JFloat pyfloat
  | JStr string
  | JList "json list"
  | JObj "(string \<times> json) list"

text \<open>The exceptions the built-in operations used by the script raise.\<close>

datatype exn = AttributeError | TypeError | ValueError | OverflowError

text \<open>\<^verbatim>\<open>d.get(k)\<close> and \<^verbatim>\<open>d.get(k, default)\<close> on a dict.\<close>

definition dict_get_default :: "(string \<times> json) list \<Rightarrow> string \<Rightarrow> json \<Rightarrow> json" where
  "dict_get_default kvs k d = (case map_of kvs k of None \<Rightarrow> d | Some v \<Rightarrow> v)"

definition dict_get :: "(string \<times> json) list \<Rightarrow> string \<Rightarrow> json" where
  "dict_get kvs k = dict_get_default kvs k JNull"

text \<open>
  \<^verbatim>\<open>x.get(k)\<close> and \<^verbatim>\<open>x.get(k, default)\<close> on an arbitrary decoded value: only a dict has
  the method, every other value raises \<^verbatim>\<open>AttributeError\<close>.
\<close>

fun get_default :: "json \<Rightarrow> string \<Rightarrow> json \<Rightarrow> exn + json" where
  "get_default (JObj kvs) k d = Inr (dict_get_default kvs k d)"
| "get_default _ k d = Inl AttributeError"

definition get :: "json \<Rightarrow> string \<Rightarrow> exn + json" where
  "get x k = get_default x k JNull"

text \<open>Truth value of a decoded value, as \<^verbatim>\<open>not x\<close> and \<^verbatim>\<open>if x\<close> test it.\<close>

fun truthy :: "json \<Rightarrow> bool" where
  "truthy JNull = False"
| "truthy (JBool b) = b"
| "truthy (JInt n) = (n \<noteq> 0)"
| "truthy (JFloat (Finite m e)) = (m \<noteq> 0)"
| "truthy (JFloat _) = True"
| "truthy (JStr s) = (s \<noteq> [])"
| "truthy (JList xs) = (xs \<noteq> [])"
| "truthy (JObj kvs) = (kvs \<noteq> [])"

text \<open>\<^verbatim>\<open>x == s\<close> for a str \<open>s\<close>: only an equal str compares equal.\<close>

fun eq_str :: "json \<Rightarrow> string \<Rightarrow> bool" where
  "eq_str (JStr t) s = (t = s)"
| "eq_str _ s = False"

subsection \<open>The built-in \<^verbatim>\<open>int()\<close>\<close>

text \<open>
  \<^verbatim>\<open>int(s)\<close> on a str strips surrounding whitespace, reads an optional sign and then decimal
  digits, where single underscores may stand between digits; anything else raises
  \<^verbatim>\<open>ValueError\<close>. (The limit recent interpreters put on the number of digits is not
  modelled; it raises \<^verbatim>\<open>ValueError\<close> as well.)
\<close>

definition is_space :: "char \<Rightarrow> bool" where
  "is_space c = ((of_char c :: nat) \<in> {9, 10, 11, 12, 13, 28, 29, 30, 31, 32, 133, 160})"

definition strip :: "string \<Rightarrow> string" where
  "strip s = rev (dropWhile is_space (rev (dropWhile is_space s)))"

definition digit_of :: "char \<Rightarrow> int option" where
  "digit_of c =
     (let n = (of_char c :: nat) in if 48 \<le> n \<and> n \<le> 57 then Some (int n - 48) else None)"

text \<open>\<open>digits_from prev acc cs\<close>: \<open>prev\<close> tells whether the character before was a digit.\<close>

fun digits_from :: "bool \<Rightarrow> int \<Rightarrow> string \<Rightarrow> int option" where
  "digits_from prev acc [] = (if prev then Some acc else None)"
| "digits_from prev acc (c # cs) =
     (case digit_of c of
        Some d \<Rightarrow> digits_from True (10 * acc + d) cs
      | None \<Rightarrow> if c = CHR ''_'' \<and> prev then digits_from False acc cs else None)"

definition int_of_str :: "string \<Rightarrow> exn + int" where
  "int_of_str s =
     (let r = (case strip s of
                 [] \<Rightarrow> None
               | c # cs \<Rightarrow>
                   if c = CHR ''-'' then map_option uminus (digits_from False 0 cs)
                   else if c = CHR ''+'' then digits_from False 0 cs
                   else digits_from False 0 (c # cs))
      in case r of None \<Rightarrow> Inl ValueError | Some n \<Rightarrow> Inr n)"

text \<open>\<^verbatim>\<open>int(f)\<close> on a float truncates towards zero and raises on an infinity or a NaN.\<close>

fun int_of_float :: "pyfloat \<Rightarrow> exn + int" where
  "int_of_float (Finite m e) =
     Inr (if 0 \<le> e then m * 2 ^ nat e else sgn m * (\<bar>m\<bar> div 2 ^ nat (- e)))"
| "int_of_float PosInf = Inl OverflowError"
| "int_of_float NegInf = Inl OverflowError"
| "int_of_float NaN = Inl ValueError"

fun py_int :: "json \<Rightarrow> exn + int" where
  "py_int JNull = Inl TypeError"
| "py_int (JBool b) = Inr (if b then 1 else 0)"
| "py_int (JInt n) = Inr n"
| "py_int (JFloat f) = int_of_float f"
| "py_int (JStr s) = int_of_str s"
| "py_int (JList xs) = Inl TypeError"
| "py_int (JObj kvs) = Inl TypeError"

section \<open>The Aggregator: \<^verbatim>\<open>calculate_cumulative_amount\<close>\<close>

text \<open>
  The three local variables of the function. Only \<open>total_amount\<close> is returned; the two
  counters are printed.
\<close>

record tally =
  total_amount :: int
  processed_count :: nat
  malformed_data_count :: nat

definition tally0 :: tally where
  "tally0 = \<lparr>total_amount = 0, processed_count = 0, malformed_data_count = 0\<rparr>"

definition skip_event :: "tally \<Rightarrow> tally" where
  "skip_event t = t\<lparr>malformed_data_count := malformed_data_count t + 1\<rparr>"

text \<open>
  One iteration of the \<^verbatim>\<open>for\<close> loop. The two \<^verbatim>\<open>continue\<close> branches and the two
  \<^verbatim>\<open>except\<close> clauses all add one to \<open>malformed_data_count\<close> and leave the rest alone: an
  event that is no dict (\<^verbatim>\<open>event.get\<close> raises), a \<^verbatim>\<open>data\<close> that is no dict, an
  \<^verbatim>\<open>amount\<close> that is \<^verbatim>\<open>None\<close> or missing, and an \<^verbatim>\<open>int()\<close> that raises.
\<close>

definition amount_step :: "tally \<Rightarrow> json \<Rightarrow> tally" where
  "amount_step t event =
     (case get event ''data'' of
        Inl e \<Rightarrow> skip_event t
      | Inr event_data \<Rightarrow>
          (case event_data of
             JObj kvs \<Rightarrow>
               (case dict_get kvs ''amount'' of
                  JNull \<Rightarrow> skip_event t
                | amount_str \<Rightarrow>
                    (case py_int amount_str of
                       Inl e \<Rightarrow> skip_event t
                     | Inr n \<Rightarrow>
                         t\<lparr>total_amount := total_amount t + n,
                           processed_count := processed_count t + 1\<rparr>))
           | _ \<Rightarrow> skip_event t))"

fun amount_loop :: "tally \<Rightarrow> json list \<Rightarrow> tally" where
  "amount_loop t [] = t"
| "amount_loop t (event # events) = amount_loop (amount_step t event) events"

text \<open>
  The locals when the function returns: the early \<^verbatim>\<open>return 0\<close> on an empty list leaves
  them at their initial values.
\<close>

definition calculate_locals :: "json list \<Rightarrow> tally" where
  "calculate_locals events = (if events = [] then tally0 else amount_loop tally0 events)"

definition calculate_cumulative_amount :: "json list \<Rightarrow> int" where
  "calculate_cumulative_amount events =
     (if events = [] then 0 else total_amount (amount_loop tally0 events))"

text \<open>
  What the specification's Sum step says of one event: its \<^verbatim>\<open>data.amount\<close> parsed as an
  integer, or nothing on absence or parse failure. It is written from the specification's
  words and is compared with the loop above; the loop does not use it.
\<close>

definition spec_amount :: "json \<Rightarrow> int option" where
  "spec_amount event =
     (case event of
        JObj ekvs \<Rightarrow>
          (case map_of ekvs ''data'' of
             Some (JObj kvs) \<Rightarrow>
               (case map_of kvs ''amount'' of
                  None \<Rightarrow> None
                | Some a \<Rightarrow> (case py_int a of Inl e \<Rightarrow> None | Inr n \<Rightarrow> Some n))
           | _ \<Rightarrow> None)
      | _ \<Rightarrow> None)"

section \<open>The Decision Engine: the per-address part of \<^verbatim>\<open>main\<close>\<close>

text \<open>One entry of \<^verbatim>\<open>results_summary\<close>.\<close>

record address_result =
  address :: string
  meets_criteria :: bool
  cumulative_amount :: int
  events_found :: nat
  error :: "string option"

text \<open>
  Step 2a, the filter loop. \<^verbatim>\<open>event.get('data')\<close> stands outside any \<^verbatim>\<open>try\<close>: on an
  element that is no dict the \<^verbatim>\<open>AttributeError\<close> leaves \<^verbatim>\<open>main\<close>.
\<close>

fun filter_user_events :: "json list \<Rightarrow> string \<Rightarrow> exn + json list" where
  "filter_user_events [] address_to_check = Inr []"
| "filter_user_events (event # events) address_to_check =
     (case get event ''data'' of
        Inl e \<Rightarrow> Inl e
      | Inr event_data_dict \<Rightarrow>
          (case filter_user_events events address_to_check of
             Inl e \<Rightarrow> Inl e
           | Inr user_specific_events \<Rightarrow>
               (case event_data_dict of
                  JObj kvs \<Rightarrow>
                    if eq_str (dict_get kvs ''user'') address_to_check
                    then Inr (event # user_specific_events)
                    else Inr user_specific_events
                | _ \<Rightarrow> Inr user_specific_events)))"

text \<open>
  The body of the loop over \<^verbatim>\<open>addresses_to_check\<close>. \<^verbatim>\<open>calculate_cumulative_amount\<close>
  catches every exception of its own loop, so the \<^verbatim>\<open>except\<close> clause around the call in
  \<^verbatim>\<open>main\<close> is never entered and \<open>error\<close> stays \<^verbatim>\<open>None\<close> on this path.
\<close>

definition check_address :: "json list \<Rightarrow> int \<Rightarrow> string \<Rightarrow> exn + address_result" where
  "check_address all_target_events threshold address_to_check =
     (case (if all_target_events \<noteq> [] then filter_user_events all_target_events address_to_check
            else Inr []) of
        Inl e \<Rightarrow> Inl e
      | Inr user_specific_events \<Rightarrow>
          (let current_result =
                 \<lparr>address = address_to_check, meets_criteria = False, cumulative_amount = 0,
                  events_found = length user_specific_events, error = None\<rparr>
           in if user_specific_events = [] then Inr current_result
              else
                (let amount = calculate_cumulative_amount user_specific_events
                 in Inr (current_result
                      \<lparr>cumulative_amount := amount,
                       meets_criteria := (if amount > threshold then True else False)\<rparr>))))"

fun check_addresses :: "json list \<Rightarrow> int \<Rightarrow> string list \<Rightarrow> exn + address_result list" where
  "check_addresses all_target_events threshold [] = Inr []"
| "check_addresses all_target_events threshold (a # as) =
     (case check_address all_target_events threshold a of
        Inl e \<Rightarrow> Inl e
      | Inr r \<Rightarrow>
          (case check_addresses all_target_events threshold as of
             Inl e \<Rightarrow> Inl e
           | Inr rs \<Rightarrow> Inr (r # rs)))"

definition no_events_result :: "string \<Rightarrow> address_result" where
  "no_events_result addr_to_check =
     \<lparr>address = addr_to_check, meets_criteria = False, cumulative_amount = 0,
      events_found = 0, error = Some ''No global events of target type found''\<rparr>"

text \<open>
  \<^verbatim>\<open>results_summary\<close> as \<^verbatim>\<open>main\<close> builds it from the global list of events, or the
  exception that ends the run.
\<close>

definition summarise :: "json list \<Rightarrow> int \<Rightarrow> string list \<Rightarrow> exn + address_result list" where
  "summarise all_target_events threshold addresses_to_check =
     (if all_target_events = [] then Inr (map no_events_result addresses_to_check)
      else check_addresses all_target_events threshold addresses_to_check)"

section \<open>The Paginator: \<^verbatim>\<open>fetch_all_events_by_type\<close>\<close>

text \<open>
  The \<^verbatim>\<open>variables\<close> of one request, and what \<^verbatim>\<open>execute_query\<close> does with it: it raises
  (the three \<^verbatim>\<open>except\<close> clauses re-raise) or returns the decoded body. The remote side is
  opaque and may answer the same request differently each time, so the executor also gets the
  number of the page being fetched.
\<close>

record variables =
  var_event_type :: string
  var_limit :: int
  var_offset :: int

datatype reply = Raises | Returns json

record remote =
  execute_query :: "nat \<Rightarrow> variables \<Rightarrow> reply"
  sleep_raises :: "nat \<Rightarrow> bool"

text \<open>\<^verbatim>\<open>'errors' in result\<close>: key membership on a dict, element membership on a list,
  substring on a str, \<^verbatim>\<open>TypeError\<close> on anything else.\<close>

fun contains :: "string \<Rightarrow> string \<Rightarrow> bool" where
  "contains pat [] = (pat = [])"
| "contains pat (c # cs) = (take (length pat) (c # cs) = pat \<or> contains pat cs)"

fun py_in :: "string \<Rightarrow> json \<Rightarrow> exn + bool" where
  "py_in k (JObj kvs) = Inr (k \<in> set (map fst kvs))"
| "py_in k (JList xs) = Inr (JStr k \<in> set xs)"
| "py_in k (JStr s) = Inr (contains k s)"
| "py_in k _ = Inl TypeError"

text \<open>
  What \<^verbatim>\<open>list.extend(x)\<close> appends: the elements of a list, the characters of a str, the
  keys of a dict; \<^verbatim>\<open>TypeError\<close> (and nothing appended) on a value that is not iterable.
  \<^verbatim>\<open>len(x)\<close> of each of the three is the number of elements appended.
\<close>

fun py_iter :: "json \<Rightarrow> exn + json list" where
  "py_iter (JList xs) = Inr xs"
| "py_iter (JStr s) = Inr (map (\<lambda>c. JStr [c]) s)"
| "py_iter (JObj kvs) = Inr (map JStr (remdups (map fst kvs)))"
| "py_iter _ = Inl TypeError"

text \<open>
  The body of the \<^verbatim>\<open>try\<close> up to the comparison with \<open>limit\<close>. \<open>Stop\<close> is a \<^verbatim>\<open>break\<close>
  with nothing appended, \<open>Last\<close> the \<^verbatim>\<open>break\<close> after a short page, \<open>More\<close> a full page.
  Every exception ends in the \<^verbatim>\<open>except Exception\<close> clause, which breaks. When
  \<^verbatim>\<open>'errors' in result\<close> holds the loop breaks after printing, or on an exception of the
  printing: both are \<open>Stop\<close>.
\<close>

datatype page_result = Stop | Last "json list" | More "json list"

definition handle_reply :: "int \<Rightarrow> reply \<Rightarrow> page_result" where
  "handle_reply limit r =
     (case r of
        Raises \<Rightarrow> Stop
      | Returns result \<Rightarrow>
          (case py_in ''errors'' result of
             Inl e \<Rightarrow> Stop
           | Inr True \<Rightarrow> Stop
           | Inr False \<Rightarrow>
               (case get_default result ''data'' (JObj []) of
                  Inl e \<Rightarrow> Stop
                | Inr events_data \<Rightarrow>
                    if \<not> truthy events_data then Stop
                    else
                      (case get_default events_data ''events'' (JList []) of
                         Inl e \<Rightarrow> Stop
                       | Inr events_page \<Rightarrow>
                           if \<not> truthy events_page then Stop
                           else
                             (case py_iter events_page of
                                Inl e \<Rightarrow> Stop
                              | Inr items \<Rightarrow>
                                  if int (length items) < limit then Last items
                                  else More items)))))"

text \<open>
  The \<^verbatim>\<open>while True\<close> loop. Nothing bounds the number of full pages, so the loop takes fuel:
  the result is \<open>None\<close> when the fuel runs out before a \<^verbatim>\<open>break\<close>. Beside the result the
  function returns the offsets it requested, in the order of the requests.
  \<open>delay_positive\<close> is the test \<^verbatim>\<open>delay_between_requests > 0\<close>; \<^verbatim>\<open>time.sleep\<close> stands inside
  the \<^verbatim>\<open>try\<close>, after the page is appended and the offset advanced.
\<close>

fun fetch_loop ::
  "nat \<Rightarrow> remote \<Rightarrow> string \<Rightarrow> int \<Rightarrow> bool \<Rightarrow> nat \<Rightarrow> int \<Rightarrow> json list
     \<Rightarrow> int list \<times> json list option" where
  "fetch_loop 0 rem event_type limit delay_positive page offset all_events_of_type =
     ([], None)"
| "fetch_loop (Suc fuel) rem event_type limit delay_positive page offset all_events_of_type =
     (case handle_reply limit
             (execute_query rem page
                \<lparr>var_event_type = event_type, var_limit = limit, var_offset = offset\<rparr>) of
        Stop \<Rightarrow> ([offset], Some all_events_of_type)
      | Last items \<Rightarrow> ([offset], Some (all_events_of_type @ items))
      | More items \<Rightarrow>
          if delay_positive \<and> sleep_raises rem page
          then ([offset], Some (all_events_of_type @ items))
          else
            (case fetch_loop fuel rem event_type limit delay_positive
                    (page + 1) (offset + limit) (all_events_of_type @ items) of
               (requested, res) \<Rightarrow> (offset # requested, res)))"

definition fetch_all_events_by_type ::
  "nat \<Rightarrow> remote \<Rightarrow> string \<Rightarrow> int \<Rightarrow> bool \<Rightarrow> int list \<times> json list option" where
  "fetch_all_events_by_type fuel rem event_type limit delay_positive =
     fetch_loop fuel rem event_type limit delay_positive 1 0 []"

section \<open>The Event Cache and \<^verbatim>\<open>main\<close>\<close>



text \<open>
  A file of the host is modelled by what reading it gives: the decoded value, or an exception
  from \<^verbatim>\<open>open\<close> or \<^verbatim>\<open>json.load\<close>. The text that \<^verbatim>\<open>json.dump\<close> writes and \<^verbatim>\<open>json.load\<close>
  parses is library code and is not modelled. Writing the cache can succeed, fail before the
  file is touched, or fail after \<^verbatim>\<open>open(..., 'w')\<close> truncated it.
\<close>

datatype stored = JsonFile json | Unreadable








text \<open>
  What a run leaves behind: the files, the offsets it requested from the remote side, and
  \<^verbatim>\<open>results_summary\<close> (or the exception that ended the run after Step 1).
\<close>

record run =
  files_after :: "string \<Rightarrow> stored option"
  requested :: "int list"
  results_summary :: "exn + address_result list"


section \<open>The specification's vocabulary\<close>

text \<open>
  The data model calls an Event a record with a \<^verbatim>\<open>data\<close> payload: in the decoded data, a
  dict. An event is attributable to an address when its \<^verbatim>\<open>data\<close> payload is a mapping whose
  \<^verbatim>\<open>user\<close> field equals the address exactly. Both are written from the specification's words
  and are only used to state properties of the code.
\<close>

definition is_event :: "json \<Rightarrow> bool" where
  "is_event e = (case e of JObj kvs \<Rightarrow> True | _ \<Rightarrow> False)"

definition attributable :: "string \<Rightarrow> json \<Rightarrow> bool" where
  "attributable addr e =
     (case e of
        JObj ekvs \<Rightarrow>
          (case map_of ekvs ''data'' of
             Some (JObj kvs) \<Rightarrow> map_of kvs ''user'' = Some (JStr addr)
           | _ \<Rightarrow> False)
      | _ \<Rightarrow> False)"

text \<open>An event as the upstream API sends it, with the two fields the script reads.\<close>

definition mint_event :: "string \<Rightarrow> json \<Rightarrow> json" where
  "mint_event user amount = JObj [(''data'', JObj [(''user'', JStr user), (''amount'', amount)])]"

text \<open>
  The specification's end-to-end scenario: five events, three of them of address
  \<^verbatim>\<open>0xA\<close> with amounts 10, 20 and 30.
\<close>

definition scenario_events :: "json list" where
  "scenario_events =
     [mint_event ''0xA'' (JStr ''10''), mint_event ''0xB'' (JStr ''7''),
      mint_event ''0xA'' (JStr ''20''), mint_event ''0xB'' (JStr ''8''),
      mint_event ''0xA'' (JStr ''30'')]"

text \<open>
  A fake Query Executor for concrete runs: it answers the \<open>n\<close>-th request with the \<open>n\<close>-th
  entry of a script and raises once the script is used up; its \<^verbatim>\<open>time.sleep\<close> never raises.
  \<open>events_reply\<close> is a well-formed body holding one page of events.
\<close>

definition scripted :: "reply list \<Rightarrow> remote" where
  "scripted script =
     \<lparr>execute_query =
        (\<lambda>page v. if 0 < page \<and> page \<le> length script then script ! (page - 1) else Raises),
      sleep_raises = (\<lambda>page. False)\<rparr>"

definition events_reply :: "json list \<Rightarrow> reply" where
  "events_reply events = Returns (JObj [(''data'', JObj [(''events'', JList events)])])"



section \<open>Properties of the Aggregator\<close>

text \<open>One iteration of the loop does what the specification's Sum step says.\<close>

lemma amount_step_spec:
  "amount_step t e =
     (case spec_amount e of
        None \<Rightarrow> skip_event t
      | Some n \<Rightarrow> t\<lparr>total_amount := total_amount t + n, processed_count := processed_count t + 1\<rparr>)"
  by (cases e)
     (auto simp: amount_step_def spec_amount_def get_def dict_get_def dict_get_default_def
           split: option.splits json.splits sum.splits)

lemma amount_loop_total:
  "total_amount (amount_loop t events) = total_amount t + sum_list (List.map_filter spec_amount events)"
  by (induction events arbitrary: t)
     (auto simp: amount_step_spec skip_event_def List.map_filter_simps split: option.splits)



lemma amount_step_counts:
  "processed_count (amount_step t e) + malformed_data_count (amount_step t e) =
     Suc (processed_count t + malformed_data_count t)"
  by (cases e)
     (auto simp: amount_step_def skip_event_def get_def
           split: option.splits json.splits sum.splits)

lemma amount_loop_counts:
  "processed_count (amount_loop t events) + malformed_data_count (amount_loop t events) =
     processed_count t + malformed_data_count t + length events"
  by (induction events arbitrary: t) (auto simp: amount_step_counts)

lemma calculate_amount_spec:
  "calculate_cumulative_amount events = sum_list (List.map_filter spec_amount events)"
  by (simp add: calculate_cumulative_amount_def amount_loop_total tally0_def)

lemma int_of_str_evals:
  "int_of_str ''10'' = Inr 10" "int_of_str ''20'' = Inr 20" "int_of_str ''30'' = Inr 30"
  "int_of_str ''40'' = Inr 40" "int_of_str ''-5'' = Inr (- 5)" "int_of_str ''60'' = Inr 60"
  "int_of_str ''abc'' = Inl ValueError" "int_of_str [] = Inl ValueError"
  "int_of_str ''1.5'' = Inl ValueError"
  by (simp_all add: int_of_str_def strip_def is_space_def digit_of_def)

lemma mint_event_amount: "spec_amount (mint_event u (JStr s)) = (case int_of_str s of Inl e \<Rightarrow> None | Inr n \<Rightarrow> Some n)"
  by (simp add: spec_amount_def mint_event_def)



text \<open>
  Claim C10. For every list of input events, \<^verbatim>\<open>calculate_cumulative_amount\<close> counts each
  event in exactly one of its two counters: \<open>processed_count\<close> plus
  \<open>malformed_data_count\<close> is the length of the input.
\<close>

theorem counters_partition_input:
  "processed_count (calculate_locals events) + malformed_data_count (calculate_locals events)
     = length events"
  by (simp add: calculate_locals_def amount_loop_counts tally0_def)

section \<open>Properties of the Decision Engine\<close>

text \<open>
  On a list of events (dicts) the filter loop of \<^verbatim>\<open>main\<close> keeps exactly the attributable
  ones, in order. An element that is no dict ends the run with \<^verbatim>\<open>AttributeError\<close> before
  any verdict is recorded.
\<close>

lemma attributable_event:
  "attributable addr (JObj ekvs) =
     (case map_of ekvs ''data'' of
        Some (JObj kvs) \<Rightarrow> map_of kvs ''user'' = Some (JStr addr)
      | _ \<Rightarrow> False)"
  by (simp add: attributable_def)

lemma filter_user_events_events:
  "\<forall>e \<in> set evs. is_event e \<Longrightarrow>
     filter_user_events evs addr = Inr (filter (attributable addr) evs)"
proof (induction evs)
  case Nil
  then show ?case by simp
next
  case (Cons e evs)
  then obtain ekvs where e: "e = JObj ekvs"
    by (auto simp: is_event_def split: json.splits)
  from Cons have rest: "filter_user_events evs addr = Inr (filter (attributable addr) evs)"
    by simp
  show ?case
  proof (cases "map_of ekvs ''data''")
    case None
    then show ?thesis
      by (simp add: e rest get_def dict_get_default_def attributable_event)
  next
    case (Some d)
    then show ?thesis
      by (cases d)
         (auto simp: e rest get_def dict_get_def dict_get_default_def attributable_event
               split: option.splits json.splits elim: eq_str.elims)
  qed
qed

lemma filter_user_events_crash:
  "\<not> (\<forall>e \<in> set evs. is_event e) \<Longrightarrow> filter_user_events evs addr = Inl AttributeError"
proof (induction evs)
  case Nil
  then show ?case by simp
next
  case (Cons e evs)
  show ?case
  proof (cases "is_event e")
    case True
    with Cons show ?thesis
      by (auto simp: is_event_def get_def split: json.splits)
  next
    case False
    then show ?thesis
      by (cases e) (auto simp: is_event_def get_def)
  qed
qed

lemma check_address_events:
  assumes "\<forall>e \<in> set evs. is_event e"
  shows "check_address evs T addr =
     Inr \<lparr>address = addr,
          meets_criteria = (filter (attributable addr) evs \<noteq> []
            \<and> T < calculate_cumulative_amount (filter (attributable addr) evs)),
          cumulative_amount = calculate_cumulative_amount (filter (attributable addr) evs),
          events_found = length (filter (attributable addr) evs),
          error = None\<rparr>"
proof (cases "evs = []")
  case True
  then show ?thesis
    by (simp add: check_address_def calculate_cumulative_amount_def)
next
  case False
  with filter_user_events_events [OF assms, of addr] show ?thesis
    by (simp add: check_address_def Let_def calculate_cumulative_amount_def)
qed

lemma check_address_crash:
  assumes "\<not> (\<forall>e \<in> set evs. is_event e)"
  shows "check_address evs T addr = Inl AttributeError"
proof -
  from assms have "evs \<noteq> []" by auto
  with filter_user_events_crash [OF assms, of addr] show ?thesis
    by (simp add: check_address_def)
qed

lemma check_address_amount:
  assumes "check_address evs T a = Inr r"
  shows "address r = a
    \<and> cumulative_amount r = sum_list (List.map_filter spec_amount (filter (attributable a) evs))"
proof (cases "\<forall>e \<in> set evs. is_event e")
  case True
  from check_address_events [OF True, of T a] assms show ?thesis
    by (auto simp: amount_loop_total calculate_cumulative_amount_def tally0_def)
next
  case False
  from check_address_crash [OF False, of T a] assms show ?thesis by simp
qed

lemma check_addresses_member:
  "check_addresses evs T addrs = Inr rs \<Longrightarrow> r \<in> set rs \<Longrightarrow>
     \<exists>a \<in> set addrs. check_address evs T a = Inr r"
  by (induction addrs arbitrary: rs) (auto split: sum.splits)

lemma sum_list_map_filter_nonneg:
  "\<forall>x \<in> set xs. \<forall>n. f x = Some n \<longrightarrow> (0::int) \<le> n \<Longrightarrow> 0 \<le> sum_list (List.map_filter f xs)"
  by (induction xs) (auto split: option.splits)

lemma scenario_events_are_events: "\<forall>e \<in> set scenario_events. is_event e"
  by (simp add: scenario_events_def mint_event_def is_event_def)

lemma scenario_events_of_A:
  "filter (attributable ''0xA'') scenario_events =
     [mint_event ''0xA'' (JStr ''10''), mint_event ''0xA'' (JStr ''20''),
      mint_event ''0xA'' (JStr ''30'')]"
  by (simp add: scenario_events_def mint_event_def attributable_def)

lemma scenario_amount_of_A:
  "calculate_cumulative_amount
     [mint_event ''0xA'' (JStr ''10''), mint_event ''0xA'' (JStr ''20''),
      mint_event ''0xA'' (JStr ''30'')] = 60"
  by (simp add: calculate_amount_spec mint_event_amount int_of_str_evals)

lemma scenario_summary:
  "summarise scenario_events 50 [''0xA''] =
     Inr [\<lparr>address = ''0xA'', meets_criteria = True, cumulative_amount = 60,
           events_found = 3, error = None\<rparr>]"
  using check_address_events [OF scenario_events_are_events, of 50 "''0xA''"]
  by (simp add: summarise_def scenario_events_of_A scenario_amount_of_A)
     (simp add: scenario_events_def)



text \<open>
  Claim C2 says that the Aggregator's output is the triple (sum, attributable count, malformed
  count), so that the caller learns the counts. \<^verbatim>\<open>calculate_cumulative_amount\<close> returns
  \<open>total_amount\<close> only. Two inputs whose counters differ have the same output: a single event
  with amount \<^verbatim>\<open>abc\<close> (malformed) and a single event with amount \<^verbatim>\<open>0\<close> (processed) both
  return 0.
\<close>

theorem aggregator_output_counterexample:
  "calculate_cumulative_amount [mint_event ''0xA'' (JStr ''abc'')]
     = calculate_cumulative_amount [mint_event ''0xA'' (JStr ''0'')]
   \<and> malformed_data_count (calculate_locals [mint_event ''0xA'' (JStr ''abc'')])
     \<noteq> malformed_data_count (calculate_locals [mint_event ''0xA'' (JStr ''0'')])
   \<and> processed_count (calculate_locals [mint_event ''0xA'' (JStr ''abc'')])
     \<noteq> processed_count (calculate_locals [mint_event ''0xA'' (JStr ''0'')])"
  by (simp add: calculate_cumulative_amount_def calculate_locals_def tally0_def
        amount_step_def skip_event_def mint_event_def get_def dict_get_def
        dict_get_default_def int_of_str_def strip_def is_space_def digit_of_def)

text \<open>
  Claim C2, amended. The Aggregator returns the sum alone, the \<open>total_amount\<close> of its locals.
  \<^verbatim>\<open>main\<close> stores that sum in the result and records the number of attributable events
  itself, as \<open>events_found\<close>: that number is the sum of the two counters, which are not
  reported one by one.
\<close>

theorem aggregator_returns_sum_only:
  assumes "\<forall>e \<in> set evs. is_event e"
  shows "calculate_cumulative_amount events = total_amount (calculate_locals events)
    \<and> (\<exists>r. check_address evs T addr = Inr r
          \<and> cumulative_amount r = total_amount (calculate_locals (filter (attributable addr) evs))
          \<and> events_found r
              = processed_count (calculate_locals (filter (attributable addr) evs))
                + malformed_data_count (calculate_locals (filter (attributable addr) evs)))"
  using check_address_events [OF assms, of T addr]
  by (simp add: calculate_cumulative_amount_def calculate_locals_def tally0_def
        amount_loop_counts)

theorem aggregator_returns_sum_only_witness:
  "calculate_cumulative_amount [mint_event ''0xA'' (JStr ''abc'')]
      = total_amount (calculate_locals [mint_event ''0xA'' (JStr ''abc'')])
   \<and> (\<exists>r. check_address scenario_events 50 ''0xA'' = Inr r
         \<and> cumulative_amount r = 60 \<and> events_found r = 3)"
proof -
  have locals: "calculate_locals
     [mint_event ''0xA'' (JStr ''10''), mint_event ''0xA'' (JStr ''20''),
      mint_event ''0xA'' (JStr ''30'')]
     = \<lparr>total_amount = 60, processed_count = 3, malformed_data_count = 0\<rparr>"
    by (simp add: calculate_locals_def tally0_def amount_step_spec mint_event_amount
          int_of_str_evals)
  from aggregator_returns_sum_only [OF scenario_events_are_events,
      of "[mint_event ''0xA'' (JStr ''abc'')]" 50 "''0xA''"]
  show ?thesis
    by (simp add: scenario_events_of_A locals)
qed

text \<open>
  Claim C5 says that the cumulative amount of an AddressResult is never negative. \<^verbatim>\<open>int()\<close>
  accepts a sign, and nothing in the script rejects a negative amount: one event with amount
  \<^verbatim>\<open>-5\<close> gives the cumulative amount \<open>-5\<close>.
\<close>

theorem amount_negative_counterexample:
  "summarise [mint_event ''0xA'' (JStr ''-5'')] 100000000 [''0xA'']
     = Inr [\<lparr>address = ''0xA'', meets_criteria = False, cumulative_amount = - 5,
              events_found = 1, error = None\<rparr>]
   \<and> cumulative_amount \<lparr>address = ''0xA'', meets_criteria = False, cumulative_amount = - 5,
              events_found = 1, error = None\<rparr> < 0"
  by (simp add: summarise_def check_address_def calculate_cumulative_amount_def tally0_def
        amount_step_def skip_event_def mint_event_def get_def dict_get_def
        dict_get_default_def int_of_str_def strip_def is_space_def digit_of_def)

text \<open>
  Claim C5, amended. For every EventSet and every address, the cumulative amount reported in
  the AddressResult is an integer, and it is non-negative whenever every amount that parses
  among the events attributable to the address is non-negative.
\<close>

theorem amount_nonnegative_when_parsed_amounts_are:
  assumes "summarise evs T addrs = Inr rs"
    and "r \<in> set rs"
    and "\<forall>e \<in> set evs. attributable (address r) e \<longrightarrow> (\<forall>n. spec_amount e = Some n \<longrightarrow> 0 \<le> n)"
  shows "0 \<le> cumulative_amount r"
proof (cases "evs = []")
  case True
  with assms(1,2) show ?thesis
    by (auto simp: summarise_def no_events_result_def)
next
  case False
  with assms(1) have "check_addresses evs T addrs = Inr rs"
    by (simp add: summarise_def)
  from check_addresses_member [OF this assms(2)]
  obtain a where a: "check_address evs T a = Inr r" by blast
  from check_address_amount [OF a]
  have addr: "address r = a"
    and amt: "cumulative_amount r =
      sum_list (List.map_filter spec_amount (filter (attributable a) evs))"
    by simp_all
  from assms(3) addr
  have "\<forall>x \<in> set (filter (attributable a) evs). \<forall>n. spec_amount x = Some n \<longrightarrow> 0 \<le> n"
    by auto
  from sum_list_map_filter_nonneg [OF this] amt show ?thesis by simp
qed

theorem amount_nonnegative_when_parsed_amounts_are_witness:
  "summarise scenario_events 50 [''0xA''] =
     Inr [\<lparr>address = ''0xA'', meets_criteria = True, cumulative_amount = 60,
           events_found = 3, error = None\<rparr>]
   \<and> 0 \<le> cumulative_amount \<lparr>address = ''0xA'', meets_criteria = True, cumulative_amount = 60,
           events_found = 3, error = None\<rparr>"
proof -
  let ?r = "\<lparr>address = ''0xA'', meets_criteria = True, cumulative_amount = 60,
           events_found = 3, error = None\<rparr>"
  have member: "?r \<in> set [?r]" by simp
  have amounts: "\<forall>e \<in> set scenario_events. attributable (address ?r) e \<longrightarrow>
      (\<forall>n. spec_amount e = Some n \<longrightarrow> 0 \<le> n)"
    by (simp add: scenario_events_def mint_event_amount int_of_str_def strip_def
          is_space_def digit_of_def)
  from amount_nonnegative_when_parsed_amounts_are [OF scenario_summary member amounts]
    scenario_summary
  show ?thesis by simp
qed

text \<open>
  Claim C6 quotes the error message as \<^verbatim>\<open>no global events of target type found\<close>. The
  message in \<^verbatim>\<open>main\<close> starts with a capital letter, so a result with the quoted message
  is not what the script produces.
\<close>

theorem no_global_events_message_counterexample:
  "summarise [] 100000000 [''0xA''] \<noteq>
     Inr [\<lparr>address = ''0xA'', meets_criteria = False, cumulative_amount = 0,
           events_found = 0,
           error = Some ''no global events of target type found''\<rparr>]"
  by (simp add: summarise_def no_events_result_def)

text \<open>
  Claim C6, amended. If the global EventSet is empty, the verdict of every address is:
  \<open>meets_criteria\<close> false, cumulative amount 0, \<open>events_found\<close> 0, and the error field
  populated with the message \<^verbatim>\<open>No global events of target type found\<close>.
\<close>

theorem no_global_events_verdict:
  "summarise [] T addrs =
     Inr (map (\<lambda>a. \<lparr>address = a, meets_criteria = False, cumulative_amount = 0,
                     events_found = 0,
                     error = Some ''No global events of target type found''\<rparr>) addrs)"
  by (simp add: summarise_def no_events_result_def)

section \<open>Properties of the Paginator\<close>

text \<open>
  A full page, with no exception from \<^verbatim>\<open>time.sleep\<close>, makes the loop go on with the next
  page number, the offset advanced by \<open>limit\<close> and the page appended; the other outcomes end
  it. After \<open>k\<close> full pages the loop stands at offset \<open>k * limit\<close> with the \<open>k\<close> pages
  accumulated in order.
\<close>

lemma fetch_loop_more:
  assumes "handle_reply limit (execute_query rem page
              \<lparr>var_event_type = et, var_limit = limit, var_offset = offset\<rparr>) = More items"
    and "\<not> (dp \<and> sleep_raises rem page)"
  shows "fetch_loop (Suc fuel) rem et limit dp page offset acc
     = (offset # fst (fetch_loop fuel rem et limit dp (page + 1) (offset + limit) (acc @ items)),
        snd (fetch_loop fuel rem et limit dp (page + 1) (offset + limit) (acc @ items)))"
  using assms by (auto split: prod.splits)

lemma fetch_loop_stop:
  assumes "handle_reply limit (execute_query rem page
              \<lparr>var_event_type = et, var_limit = limit, var_offset = offset\<rparr>) = Stop"
  shows "fetch_loop (Suc fuel) rem et limit dp page offset acc = ([offset], Some acc)"
  using assms by simp

lemma fetch_loop_last:
  assumes "handle_reply limit (execute_query rem page
              \<lparr>var_event_type = et, var_limit = limit, var_offset = offset\<rparr>) = Last items"
  shows "fetch_loop (Suc fuel) rem et limit dp page offset acc = ([offset], Some (acc @ items))"
  using assms by simp

lemma offsets_step:
  "offset # map (\<lambda>i. offset + limit + int i * limit) [0..<n]
     = map (\<lambda>i. offset + int i * limit) [0..<Suc n]"
  by (simp add: map_upt_Suc algebra_simps del: upt_Suc)

lemma fetch_loop_offsets:
  "fst (fetch_loop fuel rem et limit dp page offset acc)
     = map (\<lambda>i. offset + int i * limit)
         [0..<length (fst (fetch_loop fuel rem et limit dp page offset acc))]"
proof (induction fuel arbitrary: page offset acc)
  case 0
  then show ?case by simp
next
  case (Suc fuel)
  let ?r = "handle_reply limit (execute_query rem page
              \<lparr>var_event_type = et, var_limit = limit, var_offset = offset\<rparr>)"
  show ?case
  proof (cases ?r)
    case Stop
    then show ?thesis by simp
  next
    case (Last items)
    then show ?thesis by simp
  next
    case (More items)
    show ?thesis
    proof (cases "dp \<and> sleep_raises rem page")
      case True
      with More show ?thesis by simp
    next
      case False
      let ?rest = "fetch_loop fuel rem et limit dp (page + 1) (offset + limit) (acc @ items)"
      from fetch_loop_more [OF More False]
      have unfold: "fst (fetch_loop (Suc fuel) rem et limit dp page offset acc) = offset # fst ?rest"
        by simp
      from Suc.IH [of "page + 1" "offset + limit" "acc @ items"]
      have "fst ?rest = map (\<lambda>i. offset + limit + int i * limit) [0..<length (fst ?rest)]" .
      then have "offset # fst ?rest
          = map (\<lambda>i. offset + int i * limit) [0..<Suc (length (fst ?rest))]"
        using offsets_step [of offset limit "length (fst ?rest)"] by simp
      with unfold show ?thesis by simp
    qed
  qed
qed

lemma multiples_strictly_increasing:
  "0 < limit \<Longrightarrow> sorted_wrt (<) (map (\<lambda>i. int i * limit) [0..<n])"
  by (simp add: sorted_wrt_iff_nth_less)

lemma fetch_loop_after_full_pages:
  assumes "\<forall>i<k. handle_reply limit (execute_query rem (page + i)
              \<lparr>var_event_type = et, var_limit = limit, var_offset = offset + int i * limit\<rparr>)
              = More (pg i)
            \<and> \<not> (dp \<and> sleep_raises rem (page + i))"
  shows "fetch_loop (k + n) rem et limit dp page offset acc
     = (map (\<lambda>i. offset + int i * limit) [0..<k]
          @ fst (fetch_loop n rem et limit dp (page + k) (offset + int k * limit)
                  (acc @ concat (map pg [0..<k]))),
        snd (fetch_loop n rem et limit dp (page + k) (offset + int k * limit)
                  (acc @ concat (map pg [0..<k]))))"
  using assms
proof (induction k arbitrary: n)
  case 0
  then show ?case by simp
next
  case (Suc k)
  let ?acc = "acc @ concat (map pg [0..<k])"
  let ?off = "offset + int k * limit"
  from Suc.prems
  have earlier: "\<forall>i<k. handle_reply limit (execute_query rem (page + i)
              \<lparr>var_event_type = et, var_limit = limit, var_offset = offset + int i * limit\<rparr>)
              = More (pg i)
            \<and> \<not> (dp \<and> sleep_raises rem (page + i))"
    by simp
  from Suc.prems
  have this_page: "handle_reply limit (execute_query rem (page + k)
              \<lparr>var_event_type = et, var_limit = limit, var_offset = ?off\<rparr>)
              = More (pg k)"
    and no_raise: "\<not> (dp \<and> sleep_raises rem (page + k))"
    by simp_all
  have e1: "page + Suc k = page + k + 1" by simp
  have e2: "offset + int (Suc k) * limit = ?off + limit" by (simp add: algebra_simps)
  have e3: "acc @ concat (map pg [0..<Suc k]) = ?acc @ pg k" by simp
  have e4: "map (\<lambda>i. offset + int i * limit) [0..<Suc k]
      = map (\<lambda>i. offset + int i * limit) [0..<k] @ [?off]" by simp
  have e5: "Suc k + n = k + Suc n" by simp
  show ?case
    unfolding e1 e2 e3 e4 e5
    by (simp only: Suc.IH [OF earlier] fetch_loop_more [OF this_page no_raise]
          fst_conv snd_conv append_assoc append_Cons append_Nil)
qed

lemma handle_reply_raises: "handle_reply limit Raises = Stop"
  by (simp add: handle_reply_def)

lemma handle_reply_errors:
  "''errors'' \<in> fst ` set kvs \<Longrightarrow> handle_reply limit (Returns (JObj kvs)) = Stop"
  by (simp add: handle_reply_def)

lemma handle_reply_events:
  "handle_reply limit (events_reply events) =
     (if events = [] then Stop
      else if int (length events) < limit then Last events else More events)"
  by (simp add: handle_reply_def events_reply_def dict_get_default_def)

lemma scripted_simps:
  "execute_query (scripted script) page v
     = (if 0 < page \<and> page \<le> length script then script ! (page - 1) else Raises)"
  "sleep_raises (scripted script) page = False"
  by (simp_all add: scripted_def)

text \<open>
  The specification's scenario: page size 100 and pages of 100, 100 and 40 records give exactly
  three requests, at offsets 0, 100 and 200, and 240 records.
\<close>

lemma scenario_pagination:
  "fetch_all_events_by_type 3
      (scripted [events_reply (replicate 100 e), events_reply (replicate 100 e),
                 events_reply (replicate 40 e)])
      et 100 dp
     = ([0, 100, 200], Some (replicate 240 e))"
proof -
  let ?rem = "scripted [events_reply (replicate 100 e), events_reply (replicate 100 e),
                 events_reply (replicate 40 e)]"
  have full: "\<forall>i<2. handle_reply 100 (execute_query ?rem (1 + i)
              \<lparr>var_event_type = et, var_limit = 100, var_offset = 0 + int i * 100\<rparr>)
              = More ((\<lambda>i. replicate 100 e) i)
            \<and> \<not> (dp \<and> sleep_raises ?rem (1 + i))"
    by (simp add: scripted_simps handle_reply_events less_Suc_eq numeral_2_eq_2)
  have last: "handle_reply 100 (execute_query ?rem (1 + 2)
              \<lparr>var_event_type = et, var_limit = 100, var_offset = 0 + int 2 * 100\<rparr>)
              = Last (replicate 40 e)"
    by (simp add: scripted_simps handle_reply_events)
  have "fetch_loop (2 + Suc 0) ?rem et 100 dp 1 0 []
     = (map (\<lambda>i. 0 + int i * 100) [0..<2] @ [0 + int 2 * 100],
        Some (([] @ concat (map (\<lambda>i. replicate 100 e) [0..<2])) @ replicate 40 e))"
    by (simp only: fetch_loop_after_full_pages [OF full] fetch_loop_last [OF last]
          fst_conv snd_conv)
  moreover have "(2::nat) + Suc 0 = 3" by simp
  moreover have "[0..<2] = [0, Suc 0]" by (simp add: upt_rec)
  ultimately show ?thesis
    by (simp add: fetch_all_events_by_type_def replicate_add [symmetric])
qed

text \<open>
  Claim C3. If the request for a page raises, or its response holds an \<^verbatim>\<open>errors\<close> key,
  pagination stops there: \<^verbatim>\<open>fetch_all_events_by_type\<close> returns, as a normal result, the
  pages accumulated before that page, and requests nothing further. (The function has no
  exceptional outcome: every statement that can raise stands inside the \<^verbatim>\<open>try\<close>.) The pages
  before the failing one are the full pages that let the loop reach it.
\<close>

theorem pagination_stops_on_failure:
  assumes full: "\<forall>i<k. handle_reply limit (execute_query rem (Suc i)
              \<lparr>var_event_type = et, var_limit = limit, var_offset = int i * limit\<rparr>)
              = More (pg i)
            \<and> \<not> (dp \<and> sleep_raises rem (Suc i))"
    and fails: "execute_query rem (Suc k)
              \<lparr>var_event_type = et, var_limit = limit, var_offset = int k * limit\<rparr> = Raises
        \<or> (\<exists>kvs. execute_query rem (Suc k)
              \<lparr>var_event_type = et, var_limit = limit, var_offset = int k * limit\<rparr>
                = Returns (JObj kvs) \<and> ''errors'' \<in> fst ` set kvs)"
    and fuel: "k < fuel"
  shows "fetch_all_events_by_type fuel rem et limit dp
     = (map (\<lambda>i. int i * limit) [0..<Suc k], Some (concat (map pg [0..<k])))"
proof -
  from fuel obtain n where n: "fuel = k + Suc n"
    using less_iff_Suc_add by auto
  from full
  have full': "\<forall>i<k. handle_reply limit (execute_query rem (1 + i)
              \<lparr>var_event_type = et, var_limit = limit, var_offset = 0 + int i * limit\<rparr>)
              = More (pg i)
            \<and> \<not> (dp \<and> sleep_raises rem (1 + i))"
    by simp
  from fails
  have "handle_reply limit (execute_query rem (Suc k)
              \<lparr>var_event_type = et, var_limit = limit, var_offset = int k * limit\<rparr>) = Stop"
  proof
    assume "execute_query rem (Suc k)
              \<lparr>var_event_type = et, var_limit = limit, var_offset = int k * limit\<rparr> = Raises"
    then show ?thesis by (simp add: handle_reply_raises)
  next
    assume "\<exists>kvs. execute_query rem (Suc k)
              \<lparr>var_event_type = et, var_limit = limit, var_offset = int k * limit\<rparr>
                = Returns (JObj kvs) \<and> ''errors'' \<in> fst ` set kvs"
    then obtain kvs where r: "execute_query rem (Suc k)
              \<lparr>var_event_type = et, var_limit = limit, var_offset = int k * limit\<rparr>
                = Returns (JObj kvs)"
      and e: "''errors'' \<in> fst ` set kvs"
      by blast
    from handle_reply_errors [OF e, of limit] r show ?thesis by simp
  qed
  then have stop: "handle_reply limit (execute_query rem (1 + k)
              \<lparr>var_event_type = et, var_limit = limit, var_offset = 0 + int k * limit\<rparr>) = Stop"
    by simp
  have "fetch_loop (k + Suc n) rem et limit dp 1 0 []
     = (map (\<lambda>i. 0 + int i * limit) [0..<k] @ [0 + int k * limit],
        Some ([] @ concat (map pg [0..<k])))"
    by (simp only: fetch_loop_after_full_pages [OF full'] fetch_loop_stop [OF stop]
          fst_conv snd_conv)
  then show ?thesis
    by (simp add: fetch_all_events_by_type_def n)
qed

text \<open>
  A full first page followed by a response with an \<^verbatim>\<open>errors\<close> key returns the first page;
  an exception on the very first request returns the empty list.
\<close>

theorem pagination_stops_on_failure_witness:
  "fetch_all_events_by_type 2
      (scripted [events_reply [mint_event ''0xA'' (JStr ''10''), mint_event ''0xB'' (JStr ''7'')],
                 Returns (JObj [(''errors'', JList [JObj [(''message'', JStr ''timeout'')]])])])
      ''MintEvent'' 2 True
     = ([0, 2], Some [mint_event ''0xA'' (JStr ''10''), mint_event ''0xB'' (JStr ''7'')])
   \<and> fetch_all_events_by_type 1 (scripted []) ''MintEvent'' 2 True = ([0], Some [])"
proof -
  let ?page = "[mint_event ''0xA'' (JStr ''10''), mint_event ''0xB'' (JStr ''7'')]"
  let ?errors = "Returns (JObj [(''errors'', JList [JObj [(''message'', JStr ''timeout'')]])])"
  let ?rem = "scripted [events_reply ?page, ?errors]"
  have full: "\<forall>i<1. handle_reply 2 (execute_query ?rem (Suc i)
              \<lparr>var_event_type = ''MintEvent'', var_limit = 2, var_offset = int i * 2\<rparr>)
              = More ((\<lambda>i. ?page) i)
            \<and> \<not> (True \<and> sleep_raises ?rem (Suc i))"
    by (simp add: scripted_simps handle_reply_events)
  have fails: "execute_query ?rem (Suc 1)
              \<lparr>var_event_type = ''MintEvent'', var_limit = 2, var_offset = int 1 * 2\<rparr> = Raises
        \<or> (\<exists>kvs. execute_query ?rem (Suc 1)
              \<lparr>var_event_type = ''MintEvent'', var_limit = 2, var_offset = int 1 * 2\<rparr>
                = Returns (JObj kvs) \<and> ''errors'' \<in> fst ` set kvs)"
    by (simp add: scripted_simps)
  have first: "fetch_all_events_by_type 2 ?rem ''MintEvent'' 2 True = ([0, 2], Some ?page)"
    using pagination_stops_on_failure [OF full fails, of 2] by (simp add: upt_rec)
  have none: "\<forall>i<0. handle_reply 2 (execute_query (scripted []) (Suc i)
              \<lparr>var_event_type = ''MintEvent'', var_limit = 2, var_offset = int i * 2\<rparr>)
              = More ((\<lambda>i. []) i)
            \<and> \<not> (True \<and> sleep_raises (scripted []) (Suc i))"
    by simp
  have raises: "execute_query (scripted []) (Suc 0)
              \<lparr>var_event_type = ''MintEvent'', var_limit = 2, var_offset = int 0 * 2\<rparr> = Raises
        \<or> (\<exists>kvs. execute_query (scripted []) (Suc 0)
              \<lparr>var_event_type = ''MintEvent'', var_limit = 2, var_offset = int 0 * 2\<rparr>
                = Returns (JObj kvs) \<and> ''errors'' \<in> fst ` set kvs)"
    by (simp add: scripted_simps)
  have second: "fetch_all_events_by_type 1 (scripted []) ''MintEvent'' 2 True = ([0], Some [])"
    using pagination_stops_on_failure [OF none raises, of 1] by simp
  from first second show ?thesis by simp
qed

text \<open>
  Claim C4. For every page size, every remote side and every amount of fuel, the offsets the
  Paginator requests are \<open>0, limit, 2 * limit, ...\<close> in this order; for a positive page size
  the sequence is strictly increasing, so no offset is requested twice.
\<close>

theorem offsets_arithmetic_sequence:
  "fst (fetch_all_events_by_type fuel rem et limit dp)
     = map (\<lambda>i. int i * limit) [0..<length (fst (fetch_all_events_by_type fuel rem et limit dp))]
   \<and> (0 < limit \<longrightarrow>
        sorted_wrt (<) (fst (fetch_all_events_by_type fuel rem et limit dp))
        \<and> distinct (fst (fetch_all_events_by_type fuel rem et limit dp)))"
proof -
  let ?reqs = "fst (fetch_all_events_by_type fuel rem et limit dp)"
  have eq: "?reqs = map (\<lambda>i. int i * limit) [0..<length ?reqs]"
    using fetch_loop_offsets [of fuel rem et limit dp 1 0 "[]"]
    by (simp add: fetch_all_events_by_type_def)
  have "sorted_wrt (<) ?reqs \<and> distinct ?reqs" if "0 < limit"
  proof -
    from multiples_strictly_increasing [OF that, of "length ?reqs"] eq
    have "sorted_wrt (<) ?reqs" by simp
    then show ?thesis by (simp add: strict_sorted_iff)
  qed
  with eq show ?thesis by blast
qed

theorem offsets_arithmetic_sequence_witness:
  "fst (fetch_all_events_by_type 3
      (scripted [events_reply (replicate 100 (mint_event ''0xA'' (JStr ''10''))), events_reply (replicate 100 (mint_event ''0xA'' (JStr ''10''))),
                 events_reply (replicate 40 (mint_event ''0xA'' (JStr ''10'')))])
      ''MintEvent'' 100 True) = [0, 100, 200]
   \<and> sorted_wrt (<) (fst (fetch_all_events_by_type 3
      (scripted [events_reply (replicate 100 (mint_event ''0xA'' (JStr ''10''))), events_reply (replicate 100 (mint_event ''0xA'' (JStr ''10''))),
                 events_reply (replicate 40 (mint_event ''0xA'' (JStr ''10'')))])
      ''MintEvent'' 100 True))
   \<and> distinct (fst (fetch_all_events_by_type 3
      (scripted [events_reply (replicate 100 (mint_event ''0xA'' (JStr ''10''))), events_reply (replicate 100 (mint_event ''0xA'' (JStr ''10''))),
                 events_reply (replicate 40 (mint_event ''0xA'' (JStr ''10'')))])
      ''MintEvent'' 100 True))"
  using offsets_arithmetic_sequence [of 3
      "scripted [events_reply (replicate 100 (mint_event ''0xA'' (JStr ''10''))), events_reply (replicate 100 (mint_event ''0xA'' (JStr ''10''))),
                 events_reply (replicate 40 (mint_event ''0xA'' (JStr ''10'')))]" "''MintEvent''" 100 True]
  by (simp add: scenario_pagination)

section \<open>Properties of the Event Cache\<close>







end
